theory Spec2Isabelle
  imports Complex_Main
begin

section \<open>Python values and errors\<close>

text \<open>
  The pipeline is Python 2 code: \<open>/\<close> between integers is floor division, a missing
  dictionary key raises \<open>KeyError\<close>, an index out of range raises \<open>IndexError\<close>.
  Every raise of the modelled functions is a value of \<open>error\<close>; a function that can
  raise returns \<open>error + 'a\<close> with \<open>Inl\<close> the error.  Floating-point numbers are
  modelled by the reals, with NumPy's non-finite results written out where the code can
  produce them.
\<close>

datatype error = KeyError | IndexError | TypeError | ValueError | ZeroDivisionError
  | AssertionError | UnboundLocalError | AttributeError

datatype pyval = PStr string | PInt int

text \<open>Python's \<open>str\<close> on an integer: decimal digits, a leading minus sign when negative.\<close>

fun str_nat :: "nat \<Rightarrow> string" where
  "str_nat n = (if n < 10 then [char_of (48 + n)]
                else str_nat (n div 10) @ [char_of (48 + n mod 10)])"

declare str_nat.simps [simp del]

definition str_int :: "int \<Rightarrow> string" where
  "str_int i = (if i < 0 then CHR ''-'' # str_nat (nat (- i)) else str_nat (nat i))"

fun str :: "pyval \<Rightarrow> string" where
  "str (PStr s) = s"
| "str (PInt i) = str_int i"

text \<open>\<open>os.path.join\<close> (posixpath) on two components.\<close>

definition path_join :: "string \<Rightarrow> string \<Rightarrow> string" where
  "path_join a b =
     (if b \<noteq> [] \<and> hd b = CHR ''/'' then b
      else if a = [] \<or> last a = CHR ''/'' then a @ b
      else a @ ''/'' @ b)"

text \<open>
  \<open>xs[i]\<close> on a Python list or NumPy array: \<open>i\<close> from \<open>-len(xs)\<close> up to
  \<open>len(xs) - 1\<close> is accepted, a negative \<open>i\<close> meaning \<open>len(xs) + i\<close>; any other
  index raises.
\<close>

definition item :: "'a list \<Rightarrow> int \<Rightarrow> error + 'a" where
  "item xs i =
     (if 0 \<le> i \<and> i < int (length xs) then Inr (xs ! nat i)
      else if i < 0 \<and> - int (length xs) \<le> i then Inr (xs ! nat (int (length xs) + i))
      else Inl IndexError)"

section \<open>Candidate and noise file names\<close>

text \<open>
  \<open>getcandsfile\<close> and \<open>getnoisefile\<close> test the state dictionary for the key
  \<open>segment\<close>, so here the state is the dictionary itself: a map from key names to
  values.  \<open>d['k']\<close> raises \<open>KeyError\<close> when the key is absent; \<open>'cands_' + d['fileroot']\<close>
  needs a string (\<open>TypeError\<close>), and so does \<open>os.path.join\<close>, which is entered after its
  arguments are evaluated (\<open>AttributeError\<close>).
\<close>

type_synonym pydict = "string \<rightharpoonup> pyval"

definition lookup :: "pydict \<Rightarrow> string \<Rightarrow> error + pyval" where
  "lookup d k = (case d k of None \<Rightarrow> Inl KeyError | Some v \<Rightarrow> Inr v)"

definition lookup_str :: "pydict \<Rightarrow> string \<Rightarrow> error + string" where
  "lookup_str d k = (case d k of None \<Rightarrow> Inl KeyError | Some (PStr s) \<Rightarrow> Inr s
                     | Some (PInt i) \<Rightarrow> Inl TypeError)"

definition segfile :: "string \<Rightarrow> pydict \<Rightarrow> pyval \<Rightarrow> error + string" where
  "segfile prefix d seg =
     (case lookup d ''workdir'' of Inl e \<Rightarrow> Inl e | Inr wd \<Rightarrow>
      case lookup_str d ''fileroot'' of Inl e \<Rightarrow> Inl e | Inr fr \<Rightarrow>
      case lookup d ''scan'' of Inl e \<Rightarrow> Inl e | Inr sc \<Rightarrow>
      case wd of PInt i \<Rightarrow> Inl AttributeError
      | PStr w \<Rightarrow>
          Inr (path_join w (prefix @ fr @ ''_sc'' @ str sc @ ''seg'' @ str seg @ ''.pkl'')))"

definition getcandsfile :: "pydict \<Rightarrow> int \<Rightarrow> error + string" where
  "getcandsfile d segment =
     (case d ''segment'' of
        Some s \<Rightarrow> segfile ''cands_'' d s
      | None \<Rightarrow> if segment \<ge> 0 then segfile ''cands_'' d (PInt segment) else Inr '''')"



section \<open>Pipeline state\<close>

text \<open>
  The state dictionary \<open>d\<close> as built by \<open>set_pipeline\<close> and \<open>get_metadata\<close>, with the
  keys the modelled functions read.  \<open>segment\<close> is set by \<open>pipeline_dataprep\<close> before
  \<open>search\<close> runs.  \<open>segmenttimes\<close> is tested with \<open>has_key\<close>, so it is optional.
\<close>

record state =
  filename :: string
  workdir :: string
  fileroot :: string
  scan :: int
  segment :: int
  savecands :: bool
  searchtype :: string
  nbl :: int
  nthread :: int
  nchunk :: int
  dmarr :: "real list"
  dtarr :: "int list"
  datadelay :: "int list"
  readints :: int
  features :: "string list"
  npixx :: int
  npixy :: int
  npixx_full :: int
  npixy_full :: int
  uvres :: int
  sigma_image1 :: real
  sigma_image2 :: real
  freq :: "real list"
  freq_orig :: "real list"
  inttime :: real
  segmenttimes :: "(real \<times> real) list option"
  spw_reffreq :: "real list"
  spw_nchan :: "int list"

text \<open>The dictionary view of a state, for the functions that take the dictionary.\<close>

definition state_dict :: "state \<Rightarrow> pydict" where
  "state_dict d = [''workdir'' \<mapsto> PStr (workdir d), ''fileroot'' \<mapsto> PStr (fileroot d),
                   ''scan'' \<mapsto> PInt (scan d), ''segment'' \<mapsto> PInt (segment d)]"

section \<open>Search over the (DM, dt) grid\<close>

text \<open>
  \<open>search\<close> drives two external workers through a process pool: \<open>correct_dmdt\<close>
  (dedispersion, over baseline ranges) and \<open>image1\<close> (imaging, over integration
  ranges).  The model records each pool call as an event and takes the imaging worker
  as a function from the (dmind, dtind) pair and the integration range to the candidates
  it finds.  Log calls are events too (level and the fixed part of the message).
\<close>

datatype level = DEBUG | INFO | WARN

datatype event = Log level string
  | GenUVKernels
  | Dedisperse nat nat "(int \<times> int) list"
  | Image nat nat "(int \<times> int) list"

type_synonym candid = "int \<times> int \<times> nat \<times> nat \<times> int"

type_synonym visdata = "complex list list list list"

definition n_any :: "visdata \<Rightarrow> bool" where
  "n_any data = list_ex (list_ex (list_ex (list_ex (\<lambda>z. z \<noteq> 0)))) data"

text \<open>\<open>[(d['nbl']*t/d['nthread'], d['nbl']*(t+1)/d['nthread']) for t in range(d['nthread'])]\<close>\<close>

definition blranges :: "state \<Rightarrow> (int \<times> int) list" where
  "blranges d = map (\<lambda>t. (nbl d * int t div nthread d, nbl d * (int t + 1) div nthread d))
                    [0 ..< nat (nthread d)]"

text \<open>
  \<open>nskip_dm\<close> and \<open>searchints\<close> for one (dmind, dtind) pair.  \<open>d['datadelay'][-1]\<close> and
  \<open>d['datadelay'][dmind]\<close> raise \<open>IndexError\<close> out of range; the division raises on
  \<open>dt = 0\<close> (which \<open>set_pipeline\<close> excludes by assertion).
\<close>

definition int_ranges :: "state \<Rightarrow> nat \<Rightarrow> nat \<Rightarrow> error + (int \<times> int)" where
  "int_ranges d dmind dtind =
     (case item (datadelay d) (- 1) of Inl e \<Rightarrow> Inl e | Inr dlast \<Rightarrow>
      case item (datadelay d) (int dmind) of Inl e \<Rightarrow> Inl e | Inr ddm \<Rightarrow>
      case item (dtarr d) (int dtind) of Inl e \<Rightarrow> Inl e | Inr dt \<Rightarrow>
        if dt = 0 then Inl ZeroDivisionError
        else let nskip_dm = ((dlast - ddm) div dt) * (if segment d \<noteq> 0 then 1 else 0);
                 searchints = (readints d - ddm) div dt - nskip_dm
             in Inr (nskip_dm, searchints))"

text \<open>
  \<open>[(nskip_dm + searchints*chunk/d['nchunk'], nskip_dm + searchints*(chunk+1)/d['nchunk'])
     for chunk in range(d['nchunk'])]\<close>
\<close>

definition irange :: "state \<Rightarrow> int \<Rightarrow> int \<Rightarrow> (int \<times> int) list" where
  "irange d nskip_dm searchints =
     map (\<lambda>chunk. (nskip_dm + searchints * int chunk div nchunk d,
                    nskip_dm + searchints * (int chunk + 1) div nchunk d))
         [0 ..< nat (nchunk d)]"

text \<open>The body of the two nested loops, for one pair; then the loops over all pairs.\<close>

definition search_pair ::
  "state \<Rightarrow> (nat \<Rightarrow> nat \<Rightarrow> int \<times> int \<Rightarrow> (candid \<rightharpoonup> 'f)) \<Rightarrow> nat \<times> nat
     \<Rightarrow> (candid \<rightharpoonup> 'f) \<times> event list \<Rightarrow> error + ((candid \<rightharpoonup> 'f) \<times> event list)" where
  "search_pair d image1 p acc =
     (case p of (dmind, dtind) \<Rightarrow> case acc of (cands, tr) \<Rightarrow>
      case int_ranges d dmind dtind of Inl e \<Rightarrow> Inl e
      | Inr (nskip_dm, searchints) \<Rightarrow>
          let ir = irange d nskip_dm searchints;
              imageresults = map (image1 dmind dtind) ir
          in Inr (fold (\<lambda>imageresult c. c ++ imageresult) imageresults cands,
                  tr @ [Log DEBUG ''Dedispersing'', Dedisperse dmind dtind (blranges d),
                        Log INFO ''Imaging'', Image dmind dtind ir]))"

fun search_pairs ::
  "state \<Rightarrow> (nat \<Rightarrow> nat \<Rightarrow> int \<times> int \<Rightarrow> (candid \<rightharpoonup> 'f)) \<Rightarrow> (nat \<times> nat) list
     \<Rightarrow> (candid \<rightharpoonup> 'f) \<times> event list \<Rightarrow> error + ((candid \<rightharpoonup> 'f) \<times> event list)" where
  "search_pairs d image1 [] acc = Inr acc"
| "search_pairs d image1 (p # ps) acc =
     (case search_pair d image1 p acc of Inl e \<Rightarrow> Inl e
      | Inr acc' \<Rightarrow> search_pairs d image1 ps acc')"

definition dmdt_pairs :: "state \<Rightarrow> (nat \<times> nat) list" where
  "dmdt_pairs d = List.product [0 ..< length (dmarr d)] [0 ..< length (dtarr d)]"

text \<open>
  \<open>search\<close>.  \<open>exists\<close> is \<open>os.path.exists\<close>.  In the branch taken for non-zero data the
  first log line reads \<open>d['dmarr'][-1]\<close> and \<open>d['dtarr'][-1]\<close>, and \<open>mp.Pool\<close> refuses
  fewer than one process.
\<close>

definition search ::
  "state \<Rightarrow> (string \<Rightarrow> bool) \<Rightarrow> (nat \<Rightarrow> nat \<Rightarrow> int \<times> int \<Rightarrow> (candid \<rightharpoonup> 'f)) \<Rightarrow> visdata
     \<Rightarrow> error + ((candid \<rightharpoonup> 'f) \<times> event list)" where
  "search d exists image1 data =
     (let tr0 = [Log DEBUG ''Search of segment''] in
      case getcandsfile (state_dict d) (- 1) of Inl e \<Rightarrow> Inl e | Inr candsfile \<Rightarrow>
      if savecands d \<and> exists candsfile
      then Inr (Map.empty, tr0 @ [Log WARN ''candsfile already exists''])
      else
        let tr1 = tr0 @ (if searchtype d = ''image2w'' then [GenUVKernels] else []) in
        if n_any data then
          (case item (dmarr d) (- 1) of Inl e \<Rightarrow> Inl e | Inr dmlast \<Rightarrow>
           case item (dtarr d) (- 1) of Inl e \<Rightarrow> Inl e | Inr dtlast \<Rightarrow>
           if nthread d < 1 then Inl ValueError
           else
             case search_pairs d image1 (dmdt_pairs d)
                    (Map.empty, tr1 @ [Log INFO ''Searching in chunks with threads'',
                                       Log INFO ''Dedispering to max (DM, dt)''])
             of Inl e \<Rightarrow> Inl e
              | Inr (cands, tr) \<Rightarrow> Inr (cands, tr @ [Log INFO ''Found cands'']))
        else Inr (Map.empty,
                  tr1 @ [Log WARN ''Data for processing is zeros. Moving on...'',
                         Log INFO ''Found cands'']))"

text \<open>
  Vocabulary for lists of half-open integer ranges \<open>(a, b)\<close>, standing for
  \<open>{a ..< b}\<close>: each range starts where the previous one ends; the ranges are pairwise
  disjoint; the set of integers they cover.  \<open>steps g k\<close> is the list of ranges between
  successive values of \<open>g\<close>.
\<close>

definition consecutive :: "(int \<times> int) list \<Rightarrow> bool" where
  "consecutive rs = (\<forall>t \<in> {0 ..< length rs - 1}. snd (rs ! t) = fst (rs ! Suc t))"

definition disjoint_ranges :: "(int \<times> int) list \<Rightarrow> bool" where
  "disjoint_ranges rs = (\<forall>t \<in> {0 ..< length rs}. \<forall>s \<in> {0 ..< t}.
       {fst (rs ! s) ..< snd (rs ! s)} \<inter> {fst (rs ! t) ..< snd (rs ! t)} = {})"

definition covered :: "(int \<times> int) list \<Rightarrow> int set" where
  "covered rs = (\<Union>r \<in> set rs. {fst r ..< snd r})"

definition steps :: "(nat \<Rightarrow> int) \<Rightarrow> nat \<Rightarrow> (int \<times> int) list" where
  "steps g k = map (\<lambda>c. (g c, g (Suc c))) [0 ..< k]"


section \<open>NumPy floats\<close>

text \<open>
  NumPy scalar division does not raise on a zero divisor: it returns \<open>inf\<close>, \<open>-inf\<close> or
  \<open>nan\<close>.  Where the code divides by a value that can be zero, the result is an
  \<open>npfloat\<close>: a real or one of the three non-finite values.  Comparisons with \<open>nan\<close>
  are false.
\<close>

datatype npfloat = Fin real | PInf | NInf | NaN

definition fdiv :: "real \<Rightarrow> real \<Rightarrow> npfloat" where
  "fdiv x y = (if y \<noteq> 0 then Fin (x / y)
               else if 0 < x then PInf else if x < 0 then NInf else NaN)"




section \<open>Images and pixel positions\<close>

text \<open>
  A dirty image is a two-dimensional array of reals, a list of rows.  \<open>im.max()\<close> and
  \<open>im.min()\<close> raise \<open>ValueError\<close> on an array without elements; \<open>im.std()\<close> is the
  population standard deviation; \<open>n.where(im == p)\<close> lists the matching positions in
  row-major order, and the code takes the first.
\<close>

type_synonym image = "real list list"

definition shape :: "image \<Rightarrow> nat \<times> nat" where
  "shape im = (length im, case im of [] \<Rightarrow> 0 | r # rs \<Rightarrow> length r)"

definition im_max :: "image \<Rightarrow> error + real" where
  "im_max im = (case concat im of [] \<Rightarrow> Inl ValueError | x # xs \<Rightarrow> Inr (fold max xs x))"

definition im_min :: "image \<Rightarrow> error + real" where
  "im_min im = (case concat im of [] \<Rightarrow> Inl ValueError | x # xs \<Rightarrow> Inr (fold min xs x))"



fun first_col :: "real \<Rightarrow> real list \<Rightarrow> nat option" where
  "first_col p [] = None"
| "first_col p (x # xs) = (if x = p then Some 0 else map_option Suc (first_col p xs))"

fun where_first :: "real \<Rightarrow> image \<Rightarrow> (nat \<times> nat) option" where
  "where_first p [] = None"
| "where_first p (r # rs) =
     (case first_col p r of Some c \<Rightarrow> Some (0, c)
      | None \<Rightarrow> map_option (\<lambda>(i, j). (Suc i, j)) (where_first p rs))"

definition peak_pixel :: "image \<Rightarrow> string \<Rightarrow> error + (real \<times> real)" where
  "peak_pixel im minmax =
     (if minmax = ''max'' \<or> minmax = ''min'' then
        (case (if minmax = ''max'' then im_max im else im_min im) of Inl e \<Rightarrow> Inl e
         | Inr p \<Rightarrow> (case where_first p im of None \<Rightarrow> Inl IndexError
                      | Some (i, j) \<Rightarrow> Inr (real i, real j)))
      else Inl UnboundLocalError)"

text \<open>
  \<open>calc_lm\<close>.  \<open>pix\<close> is the optional pixel: empty for the peak of the image, two
  numbers for a given position; with any other length, or another \<open>minmax\<close>, the
  function reads unbound locals.
\<close>

definition calc_lm :: "state \<Rightarrow> image \<Rightarrow> real list \<Rightarrow> string \<Rightarrow> error + (npfloat \<times> npfloat)" where
  "calc_lm d im pix minmax =
     (case (if length pix = 0 then peak_pixel im minmax
            else if length pix = 2 then Inr (pix ! 0, pix ! 1)
            else Inl UnboundLocalError) of Inl e \<Rightarrow> Inl e
      | Inr (peakl, peakm) \<Rightarrow>
          (case shape im of (nx, ny) \<Rightarrow>
             Inr (fdiv (real nx / 2 - peakl) (real nx * real_of_int (uvres d)),
                  fdiv (real ny / 2 - peakm) (real ny * real_of_int (uvres d)))))"

section \<open>Two-stage imaging\<close>







section \<open>Reading a segment\<close>

text \<open>
  \<open>get_uvw_segment\<close>.  \<open>sdmreader.calc_uvw\<close> is external: a function of the file name,
  the scan and the time, returning the three coordinate arrays in metres.  The time is the
  midpoint of the segment (as a date string in the source, here the MJD itself), or 0 for
  segment \<open>-1\<close>, here \<open>None\<close>.  The cast to \<open>float32\<close> is the identity on the reals.
\<close>

definition get_uvw_segment ::
  "state \<Rightarrow> (string \<Rightarrow> int \<Rightarrow> real option \<Rightarrow> real list \<times> real list \<times> real list) \<Rightarrow> int
     \<Rightarrow> error + (real list \<times> real list \<times> real list)" where
  "get_uvw_segment d calc_uvw seg =
     (case (if seg \<noteq> - 1 then
              (case segmenttimes d of None \<Rightarrow> Inl AssertionError
               | Some st \<Rightarrow> (case item st seg of Inl e \<Rightarrow> Inl e
                             | Inr (t0, t1) \<Rightarrow> Inr (Some ((t1 + t0) / 2))))
            else Inr None) of Inl e \<Rightarrow> Inl e
      | Inr datetime \<Rightarrow>
          (case calc_uvw (filename d) (scan d) datetime of (u, v, w) \<Rightarrow>
           case item (freq_orig d) 0 of Inl e \<Rightarrow> Inl e
           | Inr f0 \<Rightarrow>
               Inr (map (\<lambda>x. x * f0 * (10 ^ 9 / (3 * 10 ^ 8)) * (- 1)) u,
                    map (\<lambda>x. x * f0 * (10 ^ 9 / (3 * 10 ^ 8)) * (- 1)) v,
                    map (\<lambda>x. x * f0 * (10 ^ 9 / (3 * 10 ^ 8)) * (- 1)) w)))"

text \<open>
  \<open>numpy.roll\<close> along one axis: the element at position \<open>i\<close> moves to position
  \<open>(i + shift) mod n\<close>, so a positive shift moves elements towards higher positions and
  the last \<open>shift\<close> elements come first.
\<close>

definition roll :: "'a list \<Rightarrow> int \<Rightarrow> 'a list" where
  "roll xs shift =
     (if xs = [] then []
      else let k = length xs - nat (shift mod int (length xs)) in drop k xs @ take k xs)"

text \<open>
  The spectral-window test of \<open>read_bdf_segment\<close>: the part of the function between the
  read of the data and the downsampling.  The data is indexed
  \<open>[integration][baseline][channel][polarisation]\<close> and rolled along the channel axis.
\<close>

definition dfreq :: "state \<Rightarrow> real list" where
  "dfreq d = map (\<lambda>i. spw_reffreq d ! Suc i - spw_reffreq d ! i)
                 [0 ..< length (spw_reffreq d) - 1]"

fun first_neg :: "real list \<Rightarrow> nat" where
  "first_neg [] = 0"
| "first_neg (x # xs) = (if x < 0 then 0 else Suc (first_neg xs))"

definition rollch :: "state \<Rightarrow> error + int" where
  "rollch d =
     (let k = first_neg (dfreq d) + 1
      in if k \<le> length (spw_nchan d) then Inr (sum_list (take k (spw_nchan d)))
         else Inl IndexError)"

definition read_bdf_segment_spw :: "state \<Rightarrow> 'a list list list list \<Rightarrow> error + 'a list list list list" where
  "read_bdf_segment_spw d data =
     (if \<not> list_all (\<lambda>x. x > 0) (dfreq d) then
        (if length (filter (\<lambda>x. x < 0) (dfreq d)) \<noteq> 1 then Inl AssertionError
         else case rollch d of Inl e \<Rightarrow> Inl e
              | Inr r \<Rightarrow> Inr (map (map (\<lambda>chans. roll chans r)) data))
      else Inr data)"

section \<open>The DM grid\<close>

text \<open>
  \<open>calc_dmgrid\<close>.  The widths \<open>dt0\<close>, \<open>dt1\<close> and the loss are the lambdas of the source
  over the reals.  The mean frequency and the widths are NumPy scalars, so a zero
  divisor gives no exception: with a zero mean frequency, or with \<open>dt1 = 0\<close> (then
  \<open>dt0 = 0\<close> too), the loss is \<open>nan\<close>, here \<open>None\<close>, and \<open>nan > maxloss\<close> is false.
\<close>

definition tsamp :: "state \<Rightarrow> real" where
  "tsamp d = inttime d * 10 ^ 6"

definition freq_mean :: "state \<Rightarrow> real" where
  "freq_mean d = sum_list (freq d) / real (length (freq d))"

definition bw :: "state \<Rightarrow> real" where
  "bw d = 10 ^ 3 * (last (freq d) - freq d ! 0)"

definition ch :: "state \<Rightarrow> real" where
  "ch d = 10 ^ 3 * (freq d ! 1 - freq d ! 0)"

definition dt0 :: "state \<Rightarrow> real \<Rightarrow> real \<Rightarrow> real" where
  "dt0 d dt dm = sqrt (dt\<^sup>2 + (tsamp d)\<^sup>2 + ((83 / 10 * dm * ch d) / (freq_mean d) ^ 3)\<^sup>2)"

definition dt1 :: "state \<Rightarrow> real \<Rightarrow> real \<Rightarrow> real \<Rightarrow> real" where
  "dt1 d dt dm ddm =
     sqrt (dt\<^sup>2 + (tsamp d)\<^sup>2 + ((83 / 10 * dm * ch d) / (freq_mean d) ^ 3)\<^sup>2
           + ((83 / 10 * ddm * bw d) / (freq_mean d) ^ 3)\<^sup>2)"

definition loss :: "state \<Rightarrow> real \<Rightarrow> real \<Rightarrow> real \<Rightarrow> real option" where
  "loss d dt dm ddm =
     (if freq_mean d = 0 \<or> dt1 d dt dm ddm = 0 then None
      else Some (1 - sqrt (dt0 d dt dm / dt1 d dt dm ddm)))"

definition exceeds :: "real option \<Rightarrow> real \<Rightarrow> bool" where
  "exceeds ll maxloss = (case ll of None \<Rightarrow> False | Some l \<Rightarrow> l > maxloss)"

text \<open>\<open>n.arange(start, stop, step)\<close> for a positive step.\<close>

definition arange :: "real \<Rightarrow> real \<Rightarrow> real \<Rightarrow> real list" where
  "arange start stop step =
     map (\<lambda>i. start + real i * step) [0 ..< nat \<lceil>(stop - start) / step\<rceil>]"

text \<open>The loop over the trial grid: \<open>dmgrid_final\<close> grows at its end.\<close>

definition dmgrid_step :: "state \<Rightarrow> real \<Rightarrow> real \<Rightarrow> real \<Rightarrow> real list \<Rightarrow> real list" where
  "dmgrid_step d maxloss dt dm dmgrid_final =
     (let ddm = (dm - last dmgrid_final) / 2
      in if exceeds (loss d dt dm ddm) maxloss then dmgrid_final @ [dm] else dmgrid_final)"

definition calc_dmgrid :: "state \<Rightarrow> real \<Rightarrow> real \<Rightarrow> real \<Rightarrow> real \<Rightarrow> error + real list" where
  "calc_dmgrid d maxloss dt mindm maxdm =
     (if length (freq d) < 2 then Inl IndexError
      else if maxdm = 0 then Inr [0]
      else
        let dmgrid = arange mindm maxdm (5 / 100) in
        case dmgrid of [] \<Rightarrow> Inl IndexError
        | dm0 # rest \<Rightarrow> Inr (fold (dmgrid_step d maxloss dt) dmgrid [dm0]))"

text \<open>
  The grid as the specification words it: walk the trial grid, keep a trial exactly when
  its loss against the last kept value exceeds \<open>maxloss\<close>.
\<close>

fun grid_spec :: "state \<Rightarrow> real \<Rightarrow> real \<Rightarrow> real \<Rightarrow> real list \<Rightarrow> real list" where
  "grid_spec d maxloss dt lst [] = []"
| "grid_spec d maxloss dt lst (dm # dms) =
     (if exceeds (loss d dt dm ((dm - lst) / 2)) maxloss
      then dm # grid_spec d maxloss dt dm dms
      else grid_spec d maxloss dt lst dms)"

text \<open>A low-frequency state: three channels of 50 MHz around 100 MHz.\<close>

definition lowfreq_state :: "state \<Rightarrow> state" where
  "lowfreq_state d = d\<lparr>freq := [1 / 20, 1 / 10, 3 / 20], inttime := 1 / 200\<rparr>"

section \<open>A concrete state\<close>

text \<open>
  A small state for evaluating the definitions: three baselines, two threads, two imaging
  chunks, two DMs and two widths, segment 1 of scan 7, three channels in two spectral
  windows.
\<close>

definition example_state :: state where
  "example_state =
     \<lparr>filename = ''/data/obs.sdm'', workdir = ''/data'', fileroot = ''obs'', scan = 7, segment = 1, savecands = False,
      searchtype = ''image2'', nbl = 3, nthread = 2, nchunk = 2,
      dmarr = [0, 50], dtarr = [1, 2], datadelay = [0, 4], readints = 20,
      features = [''snr1'', ''immax1'', ''l1'', ''m1'', ''snr2'', ''immax2'', ''l2'', ''m2''],
      npixx = 2, npixy = 2, npixx_full = 2, npixy_full = 2, uvres = 10,
      sigma_image1 = 6, sigma_image2 = 1,
      freq = [1, 2, 3], freq_orig = [1, 2, 3], inttime = 1 / 200,
      segmenttimes = Some [(57000, 57000 + 1 / 100), (57000 + 1 / 100, 57000 + 2 / 100)],
      spw_reffreq = [1, 3], spw_nchan = [2, 1]\<rparr>"

section \<open>Theorems\<close>

lemma getcandsfile_state_dict:
  "getcandsfile (state_dict d) seg =
     Inr (path_join (workdir d)
            (''cands_'' @ fileroot d @ ''_sc'' @ str_int (scan d) @ ''seg'' @ str_int (segment d) @ ''.pkl''))"
  by (simp add: getcandsfile_def state_dict_def segfile_def lookup_str_def lookup_def)





lemma ex_search:
  "search example_state (\<lambda>f. False) (\<lambda>dm dt r. (Map.empty :: candid \<rightharpoonup> real list)) [[[[1]]]]
     = Inr (Map.empty,
        [Log DEBUG ''Search of segment'', Log INFO ''Searching in chunks with threads'',
         Log INFO ''Dedispering to max (DM, dt)'',
         Log DEBUG ''Dedispersing'', Dedisperse 0 0 [(0, 1), (1, 3)],
         Log INFO ''Imaging'', Image 0 0 [(4, 12), (12, 20)],
         Log DEBUG ''Dedispersing'', Dedisperse 0 1 [(0, 1), (1, 3)],
         Log INFO ''Imaging'', Image 0 1 [(2, 6), (6, 10)],
         Log DEBUG ''Dedispersing'', Dedisperse 1 0 [(0, 1), (1, 3)],
         Log INFO ''Imaging'', Image 1 0 [(0, 8), (8, 16)],
         Log DEBUG ''Dedispersing'', Dedisperse 1 1 [(0, 1), (1, 3)],
         Log INFO ''Imaging'', Image 1 1 [(0, 4), (4, 8)],
         Log INFO ''Found cands''])"
  by (simp add: search_def getcandsfile_state_dict example_state_def n_any_def item_def
      dmdt_pairs_def search_pair_def int_ranges_def irange_def blranges_def upt_rec Let_def)

lemma steps_consecutive: "consecutive (steps g k)"
  by (auto simp add: consecutive_def steps_def)

lemma mono_chain:
  fixes g :: "nat \<Rightarrow> int"
  assumes "\<forall>c<k. g c \<le> g (Suc c)" and "s \<le> t" and "t \<le> k"
  shows "g s \<le> g t"
  using assms(2,3)
proof (induction t)
  case 0
  then show ?case by simp
next
  case (Suc t)
  show ?case
  proof (cases "s = Suc t")
    case True
    then show ?thesis by simp
  next
    case False
    with Suc have "g s \<le> g t" by simp
    moreover have "g t \<le> g (Suc t)" using assms(1) Suc.prems by simp
    ultimately show ?thesis by simp
  qed
qed

lemma covered_steps_mono:
  fixes g :: "nat \<Rightarrow> int"
  assumes "\<forall>c<k. g c \<le> g (Suc c)"
  shows "covered (steps g k) = {g 0 ..< g k}"
  using assms
proof (induction k)
  case 0
  then show ?case by (simp add: covered_def steps_def)
next
  case (Suc k)
  then have ih: "covered (steps g k) = {g 0 ..< g k}" by simp
  have a: "g 0 \<le> g k" using mono_chain[of k g 0 k] Suc.prems by simp
  have b: "g k \<le> g (Suc k)" using Suc.prems by simp
  have "covered (steps g (Suc k)) = covered (steps g k) \<union> {g k ..< g (Suc k)}"
    by (auto simp add: covered_def steps_def)
  also have "\<dots> = {g 0 ..< g (Suc k)}" using ih a b by auto
  finally show ?case .
qed

lemma disjoint_steps_mono:
  fixes g :: "nat \<Rightarrow> int"
  assumes "\<forall>c<k. g c \<le> g (Suc c)"
  shows "disjoint_ranges (steps g k)"
  unfolding disjoint_ranges_def
proof (intro ballI)
  fix s t
  assume "t \<in> {0 ..< length (steps g k)}" and "s \<in> {0 ..< t}"
  then have tk: "t < k" and st: "s < t" by (simp_all add: steps_def)
  then have sk: "s < k" by simp
  have "g (Suc s) \<le> g t" using mono_chain[OF assms, of "Suc s" t] st tk by simp
  then have "{g s ..< g (Suc s)} \<inter> {g t ..< g (Suc t)} = {}" by auto
  then show "{fst (steps g k ! s) ..< snd (steps g k ! s)}
               \<inter> {fst (steps g k ! t) ..< snd (steps g k ! t)} = {}"
    using tk sk by (simp add: steps_def)
qed

lemma anti_chain:
  fixes g :: "nat \<Rightarrow> int"
  assumes "\<forall>c<k. g (Suc c) \<le> g c" and "s \<le> t" and "t \<le> k"
  shows "g t \<le> g s"
  using mono_chain[of k "\<lambda>c. - g c" s t] assms by simp

lemma covered_steps_anti:
  fixes g :: "nat \<Rightarrow> int"
  assumes "\<forall>c<k. g (Suc c) \<le> g c"
  shows "covered (steps g k) = {g 0 ..< g k}"
proof -
  have "g k \<le> g 0" using anti_chain[OF assms, of 0 k] by simp
  moreover have "covered (steps g k) = {}" using assms by (auto simp add: covered_def steps_def)
  ultimately show ?thesis by simp
qed

lemma disjoint_steps_anti:
  fixes g :: "nat \<Rightarrow> int"
  assumes "\<forall>c<k. g (Suc c) \<le> g c"
  shows "disjoint_ranges (steps g k)"
  using assms by (simp add: disjoint_ranges_def steps_def)

lemma floor_steps_cases:
  fixes total n :: int
  assumes "0 < n"
  shows "(\<forall>c<k. base + total * int c div n \<le> base + total * int (Suc c) div n)
       \<or> (\<forall>c<k. base + total * int (Suc c) div n \<le> base + total * int c div n)"
proof (cases "0 \<le> total")
  case True
  have "total * int c div n \<le> total * int (Suc c) div n" for c
    using True assms by (intro zdiv_mono1) (simp_all add: mult_left_mono)
  then show ?thesis by simp
next
  case False
  have "total * int (Suc c) div n \<le> total * int c div n" for c
    using False assms by (intro zdiv_mono1) (simp_all add: algebra_simps)
  then show ?thesis by simp
qed

lemma floor_steps:
  fixes base total n :: int
  assumes "0 < n"
  defines "rs \<equiv> steps (\<lambda>c. base + total * int c div n) (nat n)"
  shows "covered rs = {base ..< base + total}" and "disjoint_ranges rs" and "consecutive rs"
    and "length rs = nat n"
proof -
  let ?g = "\<lambda>c. base + total * int c div n"
  have g0: "?g 0 = base" by simp
  have gn: "?g (nat n) = base + total" using assms(1) by simp
  from floor_steps_cases[OF assms(1), of "nat n" base total]
  show "covered rs = {base ..< base + total}"
    using covered_steps_mono[of "nat n" ?g] covered_steps_anti[of "nat n" ?g] g0 gn
    unfolding rs_def by metis
  from floor_steps_cases[OF assms(1), of "nat n" base total]
  show "disjoint_ranges rs"
    using disjoint_steps_mono[of "nat n" ?g] disjoint_steps_anti[of "nat n" ?g]
    unfolding rs_def by metis
  show "consecutive rs" unfolding rs_def by (rule steps_consecutive)
  show "length rs = nat n" unfolding rs_def by (simp add: steps_def)
qed



lemma irange_steps:
  "irange d nskip si = steps (\<lambda>c. nskip + si * int c div nchunk d) (nat (nchunk d))"
  by (simp add: irange_def steps_def add.commute)



text \<open>
  C8.  When the work buffer holds only zeros, \<open>search\<close> returns the empty candidate
  dictionary, its trace has no dedispersion and no imaging call, and it has a warning.
\<close>

theorem search_zero_data:
  assumes "\<not> n_any data"
  shows "\<exists>tr. search d ex image1 data = Inr (Map.empty, tr)
           \<and> (\<forall>dm dt r. Dedisperse dm dt r \<notin> set tr \<and> Image dm dt r \<notin> set tr)
           \<and> (\<exists>msg. Log WARN msg \<in> set tr)"
  using assms by (auto simp add: search_def getcandsfile_state_dict Let_def)

theorem search_zero_data_witness:
  "\<not> n_any [[[[0, 0], [0, 0]]]]
   \<and> (\<exists>tr. search example_state (\<lambda>f. False) (\<lambda>dm dt r. (Map.empty :: candid \<rightharpoonup> real list))
              [[[[0, 0], [0, 0]]]] = Inr (Map.empty, tr)
           \<and> (\<forall>dm dt r. Dedisperse dm dt r \<notin> set tr \<and> Image dm dt r \<notin> set tr)
           \<and> (\<exists>msg. Log WARN msg \<in> set tr))"
proof -
  have z: "\<not> n_any [[[[0, 0], [0, 0]]]]" by (simp add: n_any_def)
  from search_zero_data[OF z] z show ?thesis by blast
qed





lemma irange_subset:
  assumes "r \<in> set (irange d nskip si)"
  shows "{fst r ..< snd r} \<subseteq> {nskip ..< nskip + si}"
proof (cases "0 < nchunk d")
  case True
  have "covered (irange d nskip si) = {nskip ..< nskip + si}"
    using floor_steps(1)[OF True, of nskip si] by (simp add: irange_steps)
  moreover have "{fst r ..< snd r} \<subseteq> covered (irange d nskip si)"
    using assms unfolding covered_def by blast
  ultimately show ?thesis by simp
next
  case False
  then have "irange d nskip si = []" by (simp add: irange_def)
  with assms show ?thesis by simp
qed

lemma int_ranges_Inr:
  assumes "int_ranges d dmind dtind = Inr (nskip, si)"
  shows "dmind < length (datadelay d) \<and> dtind < length (dtarr d) \<and> dtarr d ! dtind \<noteq> 0
       \<and> nskip = (if segment d = 0 then 0
                   else (last (datadelay d) - datadelay d ! dmind) div (dtarr d ! dtind))
       \<and> si = (readints d - datadelay d ! dmind) div (dtarr d ! dtind) - nskip"
proof -
  have ne: "datadelay d \<noteq> []" using assms
    by (auto simp add: int_ranges_def item_def split: sum.splits if_splits)
  then have l: "item (datadelay d) (- 1) = Inr (last (datadelay d))"
    by (cases "datadelay d" rule: rev_cases) (simp_all add: item_def)
  show ?thesis using assms l
    by (auto simp add: int_ranges_def item_def Let_def split: sum.splits if_splits)
qed

lemma search_pair_images:
  assumes "search_pair d img p (c, tr) = Inr (c', tr')" and "Image dm dt r \<in> set tr'"
  shows "Image dm dt r \<in> set tr
       \<or> (p = (dm, dt) \<and> (\<exists>ns si. int_ranges d dm dt = Inr (ns, si) \<and> r = irange d ns si))"
  using assms
  by (auto simp add: search_pair_def Let_def split: prod.splits sum.splits)

lemma search_pairs_images:
  assumes "search_pairs d img ps (c, tr) = Inr (c', tr')" and "Image dm dt r \<in> set tr'"
  shows "Image dm dt r \<in> set tr
       \<or> ((dm, dt) \<in> set ps \<and> (\<exists>ns si. int_ranges d dm dt = Inr (ns, si) \<and> r = irange d ns si))"
  using assms
proof (induction ps arbitrary: c tr)
  case Nil
  then show ?case by simp
next
  case (Cons p ps)
  from Cons.prems(1) obtain c1 tr1 where
    p: "search_pair d img p (c, tr) = Inr (c1, tr1)" and
    rest: "search_pairs d img ps (c1, tr1) = Inr (c', tr')"
    by (auto split: sum.splits)
  from Cons.IH[OF rest Cons.prems(2)] show ?case
  proof
    assume "Image dm dt r \<in> set tr1"
    from search_pair_images[OF p this] show ?thesis by auto
  next
    assume "(dm, dt) \<in> set ps \<and> (\<exists>ns si. int_ranges d dm dt = Inr (ns, si) \<and> r = irange d ns si)"
    then show ?thesis by auto
  qed
qed

lemma search_images:
  assumes "search d ex img data = Inr (cands, tr)" and "Image dm dt r \<in> set tr"
  shows "(dm, dt) \<in> set (dmdt_pairs d)
       \<and> (\<exists>ns si. int_ranges d dm dt = Inr (ns, si) \<and> r = irange d ns si)"
proof -
  from assms obtain c0 tr0 tr1 where
    sp: "search_pairs d img (dmdt_pairs d) (Map.empty, tr0) = Inr (c0, tr1)"
    and tr: "tr = tr1 @ [Log INFO ''Found cands'']"
    and no: "\<forall>a b x. Image a b x \<notin> set tr0"
    by (auto simp add: search_def Let_def split: sum.splits if_splits prod.splits)
  from assms(2) tr have "Image dm dt r \<in> set tr1" by simp
  from search_pairs_images[OF sp this] no show ?thesis by blast
qed

text \<open>
  C2.  Every imaging call in the trace of a search that returns belongs to a (dmind, dtind)
  pair of the grid and is made on the chunks of the valid range of that pair:
  \<open>nskip_dm\<close> is \<open>(datadelay[-1] - datadelay[dmind]) / dtarr[dtind]\<close> for a non-zero
  segment and 0 for segment 0, \<open>searchints\<close> is
  \<open>(readints - datadelay[dmind]) / dtarr[dtind] - nskip_dm\<close> (floor division), and every
  chunk lies inside \<open>{nskip_dm ..< nskip_dm + searchints}\<close>.
\<close>

theorem search_valid_ints:
  assumes "search d ex image1 data = Inr (cands, tr)" and "Image dmind dtind r \<in> set tr"
  shows "dmind < length (dmarr d) \<and> dtind < length (dtarr d)
       \<and> (\<exists>nskip_dm searchints.
             nskip_dm = (if segment d = 0 then 0
                         else (last (datadelay d) - datadelay d ! dmind) div (dtarr d ! dtind))
           \<and> searchints = (readints d - datadelay d ! dmind) div (dtarr d ! dtind) - nskip_dm
           \<and> r = irange d nskip_dm searchints
           \<and> (\<forall>(i0, i1) \<in> set r. {i0 ..< i1} \<subseteq> {nskip_dm ..< nskip_dm + searchints}))"
proof -
  from search_images[OF assms] obtain ns si where
    p: "(dmind, dtind) \<in> set (dmdt_pairs d)" and
    ir: "int_ranges d dmind dtind = Inr (ns, si)" and r: "r = irange d ns si"
    by blast
  from p have idx: "dmind < length (dmarr d) \<and> dtind < length (dtarr d)"
    by (simp add: dmdt_pairs_def)
  have sub: "\<forall>(i0, i1) \<in> set r. {i0 ..< i1} \<subseteq> {ns ..< ns + si}"
    using irange_subset[of _ d ns si] r by fastforce
  from int_ranges_Inr[OF ir] idx r sub show ?thesis by blast
qed

theorem search_valid_ints_witness:
  "\<exists>cands tr.
     search example_state (\<lambda>f. False) (\<lambda>dm dt r. (Map.empty :: candid \<rightharpoonup> real list)) [[[[1]]]]
       = Inr (cands, tr)
     \<and> Image 0 1 [(2, 6), (6, 10)] \<in> set tr
     \<and> [(2, 6), (6, 10)] = irange example_state 2 8
     \<and> (\<forall>(i0, i1) \<in> set [(2, 6), (6, 10)]. {i0 ..< i1} \<subseteq> {2 ..< 2 + (8::int)})"
proof -
  let ?tr = "[Log DEBUG ''Search of segment'', Log INFO ''Searching in chunks with threads'',
         Log INFO ''Dedispering to max (DM, dt)'',
         Log DEBUG ''Dedispersing'', Dedisperse 0 0 [(0, 1), (1, 3)],
         Log INFO ''Imaging'', Image 0 0 [(4, 12), (12, 20)],
         Log DEBUG ''Dedispersing'', Dedisperse 0 1 [(0, 1), (1, 3)],
         Log INFO ''Imaging'', Image 0 1 [(2, 6), (6, 10)],
         Log DEBUG ''Dedispersing'', Dedisperse 1 0 [(0, 1), (1, 3)],
         Log INFO ''Imaging'', Image 1 0 [(0, 8), (8, 16)],
         Log DEBUG ''Dedispersing'', Dedisperse 1 1 [(0, 1), (1, 3)],
         Log INFO ''Imaging'', Image 1 1 [(0, 4), (4, 8)],
         Log INFO ''Found cands'']"
  have mem: "Image 0 1 [(2, 6), (6, 10)] \<in> set ?tr" by simp
  have vals: "segment example_state = 1" "datadelay example_state = [0, 4]"
    "dtarr example_state = [1, 2]" "readints example_state = 20"
    by (simp_all add: example_state_def)
  from search_valid_ints[OF ex_search mem]
  have eq: "[(2, 6), (6, 10)] = irange example_state 2 8"
    by (simp add: vals)
  have sub: "\<forall>(i0, i1) \<in> set [(2, 6), (6, 10)]. {i0 ..< i1} \<subseteq> {2 ..< 2 + (8::int)}"
    by simp
  from ex_search mem eq sub show ?thesis by blast
qed

text \<open>
  C7.  On an \<open>N \<times> N\<close> image with positive \<open>uvres\<close>, a pixel within one pixel of
  \<open>(N/2 - l*N*uvres, N/2 - m*N*uvres)\<close> is taken back by \<open>calc_lm\<close> to direction
  cosines within \<open>1/(N*uvres)\<close> of \<open>(l, m)\<close>, and the pixel itself is taken back to
  \<open>(l, m)\<close> exactly.
\<close>

theorem calc_lm_roundtrip:
  assumes "shape im = (N, N)" and "0 < N" and "0 < uvres d"
    and "\<bar>x - (real N / 2 - l * real N * real_of_int (uvres d))\<bar> \<le> 1"
    and "\<bar>y - (real N / 2 - m * real N * real_of_int (uvres d))\<bar> \<le> 1"
  shows "\<exists>l' m'. calc_lm d im [x, y] minmax = Inr (Fin l', Fin m')
           \<and> \<bar>l' - l\<bar> \<le> 1 / (real N * real_of_int (uvres d))
           \<and> \<bar>m' - m\<bar> \<le> 1 / (real N * real_of_int (uvres d))
           \<and> (x = real N / 2 - l * real N * real_of_int (uvres d) \<longrightarrow> l' = l)
           \<and> (y = real N / 2 - m * real N * real_of_int (uvres d) \<longrightarrow> m' = m)"
proof -
  define q where "q = real N * real_of_int (uvres d)"
  have q: "0 < q" using assms(2,3) by (simp add: q_def)
  have bound: "\<bar>(real N / 2 - z) / q - k\<bar> \<le> 1 / q"
    if "\<bar>z - (real N / 2 - k * q)\<bar> \<le> 1" for z k
  proof -
    have "(real N / 2 - z) / q - k = (real N / 2 - k * q - z) / q"
      using q by (simp add: field_simps)
    then have "\<bar>(real N / 2 - z) / q - k\<bar> = \<bar>z - (real N / 2 - k * q)\<bar> / q"
      using q by (simp add: abs_minus_commute)
    also have "\<dots> \<le> 1 / q" using that q by (simp add: divide_right_mono)
    finally show ?thesis .
  qed
  have exact: "(real N / 2 - z) / q = k" if "z = real N / 2 - k * q" for z k
    using q that by simp
  have c: "calc_lm d im [x, y] minmax = Inr (Fin ((real N / 2 - x) / q), Fin ((real N / 2 - y) / q))"
    using assms(1,2,3) by (simp add: calc_lm_def fdiv_def q_def)
  have a4: "\<bar>x - (real N / 2 - l * q)\<bar> \<le> 1" using assms(4) by (simp add: q_def mult.assoc)
  have a5: "\<bar>y - (real N / 2 - m * q)\<bar> \<le> 1" using assms(5) by (simp add: q_def mult.assoc)
  show ?thesis
    unfolding c using bound[OF a4] bound[OF a5] exact[of x l] exact[of y m]
    by (simp add: q_def mult.assoc)
qed

theorem calc_lm_roundtrip_witness:
  "shape [[0, 0], [0, 0]] = (2, 2) \<and> (0::nat) < 2 \<and> 0 < uvres example_state
   \<and> \<bar>1 - (real 2 / 2 - (1 / 40) * real 2 * real_of_int (uvres example_state))\<bar> \<le> (1::real)
   \<and> \<bar>2 - (real 2 / 2 - (- 1 / 20) * real 2 * real_of_int (uvres example_state))\<bar> \<le> (1::real)
   \<and> (\<exists>l' m'. calc_lm example_state [[0, 0], [0, 0]] [1, 2] ''max'' = Inr (Fin l', Fin m')
           \<and> \<bar>l' - 1 / 40\<bar> \<le> 1 / 20 \<and> \<bar>m' - (- 1 / 20)\<bar> \<le> 1 / 20 \<and> m' = - 1 / 20)"
proof -
  have s: "shape [[0, 0], [0, 0]] = (2, 2)" by (simp add: shape_def)
  have u: "uvres example_state = 10" by (simp add: example_state_def)
  have n: "(0::nat) < 2" by simp
  have p: "0 < uvres example_state" using u by simp
  have x: "\<bar>1 - (real 2 / 2 - (1 / 40) * real 2 * real_of_int (uvres example_state))\<bar> \<le> (1::real)"
    unfolding u by simp
  have y: "\<bar>2 - (real 2 / 2 - (- 1 / 20) * real 2 * real_of_int (uvres example_state))\<bar> \<le> (1::real)"
    unfolding u by simp
  from calc_lm_roundtrip[OF s n p x y, of "''max''"]
  have "\<exists>l' m'. calc_lm example_state [[0, 0], [0, 0]] [1, 2] ''max'' = Inr (Fin l', Fin m')
           \<and> \<bar>l' - 1 / 40\<bar> \<le> 1 / 20 \<and> \<bar>m' - (- 1 / 20)\<bar> \<le> 1 / 20 \<and> m' = - 1 / 20"
    unfolding u by simp
  with s n p x y show ?thesis by blast
qed






















text \<open>
  C6.  For a segment of the state, the coordinates returned by \<open>get_uvw_segment\<close> are
  those of the external \<open>calc_uvw\<close> at the midpoint of the segment, each multiplied by
  the first original channel frequency in Hz over \<open>c = 3 * 10^8\<close> and negated.
\<close>

theorem get_uvw_segment_wavelengths:
  assumes "0 \<le> seg" and "nat seg < length st" and "segmenttimes d = Some st"
    and "st ! nat seg = (t0, t1)" and "freq_orig d \<noteq> []"
    and "calc_uvw (filename d) (scan d) (Some ((t0 + t1) / 2)) = (u, v, w)"
  shows "get_uvw_segment d calc_uvw seg =
           Inr (map (\<lambda>x. - (x * (freq_orig d ! 0 * 10 ^ 9) / (3 * 10 ^ 8))) u,
                map (\<lambda>x. - (x * (freq_orig d ! 0 * 10 ^ 9) / (3 * 10 ^ 8))) v,
                map (\<lambda>x. - (x * (freq_orig d ! 0 * 10 ^ 9) / (3 * 10 ^ 8))) w)"
proof -
  have i: "item st seg = Inr (t0, t1)" using assms(1,2,4) by (simp add: item_def)
  have f: "item (freq_orig d) 0 = Inr (freq_orig d ! 0)" using assms(5) by (simp add: item_def)
  have m: "(t1 + t0) / 2 = (t0 + t1) / 2" by (simp add: add.commute)
  have s: "seg \<noteq> - 1" using assms(1) by simp
  show ?thesis
    unfolding get_uvw_segment_def using s by (simp add: assms(3) i f m assms(6))
qed

theorem get_uvw_segment_wavelengths_witness:
  "get_uvw_segment example_state (\<lambda>f s t. ([3, - 6], [6, 0], [9, 3])) 0
     = Inr ([- 10, 20], [- 20, 0], [- 30, - 10])"
proof -
  have st: "segmenttimes example_state
              = Some [(57000, 57000 + 1 / 100), (57000 + 1 / 100, 57000 + 2 / 100)]"
    by (simp add: example_state_def)
  have fo: "freq_orig example_state \<noteq> []" and f0: "freq_orig example_state ! 0 = 1"
    by (simp_all add: example_state_def)
  from get_uvw_segment_wavelengths[of 0 _ example_state 57000 "57000 + 1 / 100"
         "\<lambda>f s t. ([3, - 6], [6, 0], [9, 3])" "[3, - 6]" "[6, 0]" "[9, 3]", OF _ _ st _ fo]
  show ?thesis by (simp add: f0)
qed

lemma spw_order_ambiguous:
  assumes "1 < length (filter (\<lambda>x. x < 0) (dfreq d))"
  shows "read_bdf_segment_spw d data = Inl AssertionError"
proof -
  from assms have "filter (\<lambda>x. x < 0) (dfreq d) \<noteq> []" by auto
  then obtain x where "x \<in> set (dfreq d)" "x < 0"
    by (metis (mono_tags, lifting) filter_False)
  then have "\<not> list_all (\<lambda>x. x > 0) (dfreq d)"
    unfolding list_all_iff by (metis less_asym)
  with assms show ?thesis by (simp add: read_bdf_segment_spw_def)
qed

text \<open>
  C3.  With the spectral windows in the order of reference frequencies 2, 3, 4, 1 (one
  channel each, one negative jump, three channels before the wrap) \<open>read_bdf_segment\<close>
  rolls the channel axis by three positions towards higher indices and leaves the
  channels in the order 3, 4, 1, 2; rolling by three positions towards lower indices gives
  1, 2, 3, 4.
\<close>

theorem spw_roll_direction:
  "read_bdf_segment_spw (example_state\<lparr>spw_reffreq := [2, 3, 4, 1], spw_nchan := [1, 1, 1, 1]\<rparr>)
      [[[[2::nat], [3], [4], [1]]]] = Inr [[[[3], [4], [1], [2]]]]
   \<and> roll [[2::nat], [3], [4], [1]] (- 3) = [[1], [2], [3], [4]]"
  by (simp add: read_bdf_segment_spw_def dfreq_def rollch_def roll_def upt_rec Let_def)

lemma fold_dmgrid_step:
  assumes "acc \<noteq> []"
  shows "fold (dmgrid_step d maxloss dt) xs acc = acc @ grid_spec d maxloss dt (last acc) xs"
  using assms
proof (induction xs arbitrary: acc)
  case Nil
  then show ?case by simp
next
  case (Cons x xs)
  show ?case
  proof (cases "exceeds (loss d dt x ((x - last acc) / 2)) maxloss")
    case True
    then have "dmgrid_step d maxloss dt x acc = acc @ [x]" by (simp add: dmgrid_step_def)
    then show ?thesis using Cons.IH[of "acc @ [x]"] True by simp
  next
    case False
    then have "dmgrid_step d maxloss dt x acc = acc" by (simp add: dmgrid_step_def)
    then show ?thesis using Cons.IH[OF Cons.prems] False by simp
  qed
qed

lemma grid_spec_subset: "set (grid_spec d maxloss dt lst xs) \<subseteq> set xs"
  by (induction xs arbitrary: lst) auto


lemma arange_length:
  "length (arange start stop step) = nat \<lceil>(stop - start) / step\<rceil>"
  by (simp add: arange_def)

lemma arange_nth:
  assumes "i < length (arange start stop step)"
  shows "arange start stop step ! i = start + real i * step"
  using assms by (simp add: arange_def)


lemma arange_strict:
  assumes "0 < step"
  shows "sorted_wrt (<) (arange start stop step)"
  unfolding arange_def sorted_wrt_map
  by (rule sorted_wrt_mono_rel[OF _ sorted_wrt_upt]) (use assms in simp)

lemma arange_ge_start:
  assumes "0 < step" and "x \<in> set (arange start stop step)"
  shows "start \<le> x"
  using assms by (auto simp add: arange_def)

lemma arange_Cons:
  assumes "0 < step" and "start < stop"
  shows "\<exists>rest. arange start stop step = start # rest"
proof -
  have "0 < (stop - start) / step" using assms by simp
  then have "0 < \<lceil>(stop - start) / step\<rceil>" by (simp add: less_ceiling_iff)
  then have "0 < length (arange start stop step)" by (simp add: arange_length)
  then obtain x rest where c: "arange start stop step = x # rest"
    by (cases "arange start stop step") auto
  have "arange start stop step ! 0 = start + real 0 * step"
    by (rule arange_nth) (simp add: c)
  then have "x = start" by (simp add: c)
  with c show ?thesis by simp
qed

lemma arange_empty:
  assumes "0 < step" and "stop \<le> start"
  shows "arange start stop step = []"
proof -
  have "(stop - start) / step \<le> 0" using assms by (simp add: divide_le_0_iff)
  then have "\<lceil>(stop - start) / step\<rceil> \<le> 0" by (simp add: ceiling_le_iff)
  then show ?thesis by (simp add: arange_def)
qed

lemma dt1_zero_ddm: "dt1 d dt dm 0 = dt0 d dt dm"
  by (simp add: dt1_def dt0_def)

lemma loss_no_step: "\<not> exceeds (loss d dt dm 0) maxloss" if "0 \<le> maxloss"
proof (cases "loss d dt dm 0")
  case None
  then show ?thesis by (simp add: exceeds_def)
next
  case (Some l)
  then have "dt1 d dt dm 0 \<noteq> 0" and "l = 1 - sqrt (dt0 d dt dm / dt1 d dt dm 0)"
    by (auto simp add: loss_def split: if_splits)
  then have "l = 0" by (simp add: dt1_zero_ddm)
  with Some that show ?thesis by (simp add: exceeds_def)
qed

lemma calc_dmgrid_grid:
  assumes "2 \<le> length (freq d)" and "maxdm \<noteq> 0" and "mindm < maxdm"
  shows "calc_dmgrid d maxloss dt mindm maxdm
           = Inr (mindm # grid_spec d maxloss dt mindm (arange mindm maxdm (5 / 100)))"
proof -
  from arange_Cons[of "5 / 100" mindm maxdm] assms(3)
  obtain rest where c: "arange mindm maxdm (5 / 100) = mindm # rest" by auto
  have "fold (dmgrid_step d maxloss dt) (mindm # rest) [mindm]
          = [mindm] @ grid_spec d maxloss dt (last [mindm]) (mindm # rest)"
    by (rule fold_dmgrid_step) simp
  then show ?thesis
    using assms(1,2) unfolding calc_dmgrid_def Let_def c by (simp del: fold_simps grid_spec.simps)
qed






lemma grid_spec_adjacent:
  assumes "sorted_wrt (<) xs" and "\<forall>x \<in> set xs. lst \<le> x"
  shows "\<forall>(a, b) \<in> set (zip (lst # grid_spec d maxloss dt lst xs) (grid_spec d maxloss dt lst xs)).
           exceeds (loss d dt b ((b - a) / 2)) maxloss
         \<and> (\<forall>t \<in> set xs. a < t \<and> t < b \<longrightarrow> \<not> exceeds (loss d dt t ((t - a) / 2)) maxloss)"
  using assms
proof (induction xs arbitrary: lst)
  case Nil
  then show ?case by simp
next
  case (Cons x xs)
  from Cons.prems have s: "sorted_wrt (<) xs" and gt: "\<forall>y \<in> set xs. x < y" and le: "lst \<le> x"
    by simp_all
  show ?case
  proof (cases "exceeds (loss d dt x ((x - lst) / 2)) maxloss")
    case True
    let ?G = "grid_spec d maxloss dt x xs"
    have g: "grid_spec d maxloss dt lst (x # xs) = x # ?G" using True by simp
    have ih: "\<forall>(a, b) \<in> set (zip (x # ?G) ?G).
           exceeds (loss d dt b ((b - a) / 2)) maxloss
         \<and> (\<forall>t \<in> set xs. a < t \<and> t < b \<longrightarrow> \<not> exceeds (loss d dt t ((t - a) / 2)) maxloss)"
      using Cons.IH[OF s, of x] gt by fastforce
    have "exceeds (loss d dt b ((b - a) / 2)) maxloss
         \<and> (\<forall>t \<in> set (x # xs). a < t \<and> t < b \<longrightarrow> \<not> exceeds (loss d dt t ((t - a) / 2)) maxloss)"
      if m: "(a, b) \<in> set (zip (lst # x # ?G) (x # ?G))" for a b
    proof -
      from m consider "a = lst" "b = x" | "(a, b) \<in> set (zip (x # ?G) ?G)" by auto
      then show ?thesis
      proof cases
        case 1
        then show ?thesis using True gt by auto
      next
        case 2
        then have "a \<in> set (x # ?G)" by (rule set_zip_leftD)
        moreover have "\<forall>y \<in> set ?G. x < y"
          using grid_spec_subset[of d maxloss dt x xs] gt by blast
        ultimately have "x \<le> a" by auto
        then show ?thesis using ih 2 by auto
      qed
    qed
    then show ?thesis unfolding g by blast
  next
    case False
    let ?G = "grid_spec d maxloss dt lst xs"
    have g: "grid_spec d maxloss dt lst (x # xs) = ?G" using False by simp
    have lexs: "\<forall>y \<in> set xs. lst \<le> y" using gt le by auto
    have ih: "\<forall>(a, b) \<in> set (zip (lst # ?G) ?G).
           exceeds (loss d dt b ((b - a) / 2)) maxloss
         \<and> (\<forall>t \<in> set xs. a < t \<and> t < b \<longrightarrow> \<not> exceeds (loss d dt t ((t - a) / 2)) maxloss)"
      using Cons.IH[OF s lexs] .
    have "exceeds (loss d dt b ((b - a) / 2)) maxloss
         \<and> (\<forall>t \<in> set (x # xs). a < t \<and> t < b \<longrightarrow> \<not> exceeds (loss d dt t ((t - a) / 2)) maxloss)"
      if m: "(a, b) \<in> set (zip (lst # ?G) ?G)" for a b
    proof -
      from m have "a \<in> set (lst # ?G)" by (rule set_zip_leftD)
      moreover have "\<forall>y \<in> set ?G. x < y"
        using grid_spec_subset[of d maxloss dt lst xs] gt by blast
      ultimately have "a = lst \<or> x < a" by auto
      then have "a < x \<longrightarrow> \<not> exceeds (loss d dt x ((x - a) / 2)) maxloss"
        using False by auto
      then show ?thesis using ih m by auto
    qed
    then show ?thesis unfolding g by blast
  qed
qed

text \<open>
  C5 (as amended).  For every pair of adjacent entries \<open>a\<close>, \<open>b\<close> of the grid returned
  by \<open>calc_dmgrid\<close>, the loss at \<open>b\<close> for the half step \<open>(b - a)/2\<close> exceeds
  \<open>maxloss\<close>, and every trial strictly between \<open>a\<close> and \<open>b\<close> has a loss against \<open>a\<close>
  that does not exceed \<open>maxloss\<close>.
\<close>

theorem calc_dmgrid_adjacent_loss:
  assumes "calc_dmgrid d maxloss dt mindm maxdm = Inr g"
  shows "\<forall>(a, b) \<in> set (zip g (tl g)).
           exceeds (loss d dt b ((b - a) / 2)) maxloss
         \<and> (\<forall>t \<in> set (arange mindm maxdm (5 / 100)).
               a < t \<and> t < b \<longrightarrow> \<not> exceeds (loss d dt t ((t - a) / 2)) maxloss)"
proof (cases "maxdm = 0")
  case True
  with assms have "g = [0]" by (simp add: calc_dmgrid_def split: if_splits)
  then show ?thesis by simp
next
  case False
  from assms have len: "2 \<le> length (freq d)" by (simp add: calc_dmgrid_def split: if_splits)
  have lt: "mindm < maxdm"
  proof (rule ccontr)
    assume "\<not> mindm < maxdm"
    then have "arange mindm maxdm (5 / 100) = []" by (simp add: arange_empty)
    with assms False len show False by (simp add: calc_dmgrid_def)
  qed
  let ?xs = "arange mindm maxdm (5 / 100)"
  have g: "g = mindm # grid_spec d maxloss dt mindm ?xs"
    using calc_dmgrid_grid[OF len False lt, of maxloss dt] assms by simp
  have "\<forall>(a, b) \<in> set (zip (mindm # grid_spec d maxloss dt mindm ?xs) (grid_spec d maxloss dt mindm ?xs)).
           exceeds (loss d dt b ((b - a) / 2)) maxloss
         \<and> (\<forall>t \<in> set ?xs. a < t \<and> t < b \<longrightarrow> \<not> exceeds (loss d dt t ((t - a) / 2)) maxloss)"
  proof (rule grid_spec_adjacent)
    have p: "(0::real) < 5 / 100" by simp
    show "sorted_wrt (<) ?xs" by (rule arange_strict[OF p])
    show "\<forall>x \<in> set ?xs. mindm \<le> x" using arange_ge_start[OF p] by blast
  qed
  then show ?thesis unfolding g by simp
qed

lemma sqrt_sqrt_less:
  fixes r q :: real
  assumes "0 \<le> q" and "r < q ^ 4"
  shows "sqrt (sqrt r) < q"
proof -
  have "r < (q\<^sup>2)\<^sup>2" using assms(2) by (simp add: power_even_eq)
  moreover have "0 \<le> q\<^sup>2" by simp
  ultimately have "sqrt r < q\<^sup>2" by (rule real_less_lsqrt[rotated])
  then show ?thesis by (rule real_less_lsqrt[OF assms(1)])
qed

lemma loss_above:
  assumes "freq_mean d \<noteq> 0" and "dt0 d dt dm = sqrt A" and "dt1 d dt dm ddm = sqrt B"
    and "0 < B" and "c \<le> 1" and "A < (1 - c) * (1 - c) * (1 - c) * (1 - c) * B"
  shows "\<exists>l. loss d dt dm ddm = Some l \<and> c < l"
proof -
  have nz: "dt1 d dt dm ddm \<noteq> 0" using assms(3,4) by simp
  have "(1 - c) ^ 4 = (1 - c) * (1 - c) * (1 - c) * (1 - c)"
    by (simp add: power4_eq_xxxx)
  then have "A / B < (1 - c) ^ 4" using assms(4,6) by (simp add: pos_divide_less_eq)
  then have "sqrt (sqrt (A / B)) < 1 - c" using assms(5) by (intro sqrt_sqrt_less) simp_all
  then have "c < 1 - sqrt (sqrt A / sqrt B)" by (simp add: real_sqrt_divide)
  then show ?thesis using assms(1,2,3) nz by (simp add: loss_def)
qed

lemma lowfreq_vals:
  "freq_mean (lowfreq_state example_state) = 1 / 10"
  "ch (lowfreq_state example_state) = 50"
  "bw (lowfreq_state example_state) = 100"
  "tsamp (lowfreq_state example_state) = 5000"
  "length (freq (lowfreq_state example_state)) = 3"
  by (simp_all add: lowfreq_state_def freq_mean_def ch_def bw_def tsamp_def)

lemma lowfreq_dt0_a: "dt0 (lowfreq_state example_state) 3000 0 = sqrt 34000000"
  by (simp add: dt0_def lowfreq_vals)

lemma lowfreq_dt1_a: "dt1 (lowfreq_state example_state) 3000 0 (1 / 40) = sqrt 464562500"
  by (simp add: dt1_def lowfreq_vals power2_eq_square power3_eq_cube)

lemma lowfreq_dt0_b: "dt0 (lowfreq_state example_state) 3000 (1 / 20) = sqrt 464562500"
  by (simp add: dt0_def lowfreq_vals power2_eq_square power3_eq_cube)

lemma lowfreq_dt1_b: "dt1 (lowfreq_state example_state) 3000 (1 / 20) (1 / 40) = sqrt 895125000"
  by (simp add: dt1_def lowfreq_vals power2_eq_square power3_eq_cube)

lemma lowfreq_loss_a:
  "\<exists>l. loss (lowfreq_state example_state) 3000 0 (1 / 40) = Some l \<and> 9 / 20 < l"
  by (rule loss_above[OF _ lowfreq_dt0_a lowfreq_dt1_a]) (simp_all add: lowfreq_vals)

lemma lowfreq_loss_b:
  "\<exists>l. loss (lowfreq_state example_state) 3000 (1 / 20) (1 / 40) = Some l \<and> 1 / 20 < l"
  by (rule loss_above[OF _ lowfreq_dt0_b lowfreq_dt1_b]) (simp_all add: lowfreq_vals)

lemma lowfreq_arange: "arange 0 (1 / 10) (5 / 100) = [0, 1 / 20]"
  by (simp add: arange_def upt_rec)

lemma lowfreq_arange_norm: "arange 0 (1 / 10) (1 / 20) = [0, 1 / 20]"
  using lowfreq_arange by simp

lemma lowfreq_grid:
  "calc_dmgrid (lowfreq_state example_state) (1 / 20) 3000 0 (1 / 10) = Inr [0, 1 / 20]"
proof -
  have e: "exceeds (loss (lowfreq_state example_state) 3000 (1 / 20) (1 / 40)) (1 / 20)"
    using lowfreq_loss_b by (auto simp add: exceeds_def)
  have n: "\<not> exceeds (loss (lowfreq_state example_state) 3000 0 0) (1 / 20)"
    by (rule loss_no_step) simp
  have "grid_spec (lowfreq_state example_state) (1 / 20) 3000 0 [0, 1 / 20] = [1 / 20]"
    using e n by simp
  then show ?thesis
    using calc_dmgrid_grid[of "lowfreq_state example_state" "1 / 10" 0 "1 / 20" 3000]
    by (simp add: lowfreq_vals lowfreq_arange_norm del: grid_spec.simps)
qed

text \<open>
  C5 as stated (loss between adjacent entries at most \<open>maxloss\<close> plus a small
  tolerance) fails: for three 50 MHz channels around 100 MHz, 5 ms integrations and a
  3 ms pulse, the grid for \<open>maxloss = 0.05\<close> up to \<open>maxdm = 0.1\<close> is \<open>[0, 0.05]\<close>, and
  the loss at 0 for the half step 0.025 is above 0.45.
\<close>

theorem calc_dmgrid_adjacent_loss_unbounded:
  "calc_dmgrid (lowfreq_state example_state) (1 / 20) 3000 0 (1 / 10) = Inr [0, 1 / 20]
   \<and> (\<exists>l. loss (lowfreq_state example_state) 3000 0 ((1 / 20 - 0) / 2) = Some l
          \<and> \<not> l \<le> 1 / 20 + 2 / 5)"
proof -
  from lowfreq_loss_a obtain l where
    "loss (lowfreq_state example_state) 3000 0 (1 / 40) = Some l" "9 / 20 < l" by blast
  then have "\<exists>l. loss (lowfreq_state example_state) 3000 0 ((1 / 20 - 0) / 2) = Some l
          \<and> \<not> l \<le> 1 / 20 + 2 / 5"
    by simp
  with lowfreq_grid show ?thesis by blast
qed

theorem calc_dmgrid_adjacent_loss_witness:
  "calc_dmgrid (lowfreq_state example_state) (1 / 20) 3000 0 (1 / 10) = Inr [0, 1 / 20]
   \<and> exceeds (loss (lowfreq_state example_state) 3000 (1 / 20) ((1 / 20 - 0) / 2)) (1 / 20)"
  using calc_dmgrid_adjacent_loss[OF lowfreq_grid] lowfreq_grid by simp



end
